theory Spec2Isabelle
  imports Main
begin

section \<open>JavaScript values\<close>

text \<open>
  The values that reach \<^verbatim>\<open>runtime/js/10_permissions.js\<close>: the primitives
  \<^verbatim>\<open>undefined\<close>, \<^verbatim>\<open>null\<close>, booleans, strings and symbols, \<^verbatim>\<open>URL\<close> objects (carrying
  their \<^verbatim>\<open>href\<close>), plain data objects (an association list of own properties) and
  arrays. Numbers are left out (their string conversion is floating point), and so are
  functions, accessors, proxies and symbol-keyed properties: no property of a plain object
  here is callable.
\<close>

datatype jsval =
    JUndefined
  | JNull
  | JBool bool
  | JStr string
  | JSym nat
  | JUrl string
  | JObj "(string \<times> jsval) list"
  | JArr "jsval list"

text \<open>What a \<^verbatim>\<open>throw\<close> carries: a \<^verbatim>\<open>TypeError\<close> with its message, or any other
  exception a collaborator (path conversion, the decision engine) raises.\<close>

datatype js_error = TypeError string | HostError string

fun typeof :: "jsval \<Rightarrow> string" where
  "typeof JUndefined = ''undefined''"
| "typeof JNull = ''object''"
| "typeof (JBool b) = ''boolean''"
| "typeof (JStr s) = ''string''"
| "typeof (JSym n) = ''symbol''"
| "typeof (JUrl u) = ''object''"
| "typeof (JObj ps) = ''object''"
| "typeof (JArr xs) = ''object''"

text \<open>\<^verbatim>\<open>desc.p\<close> for the property names this file reads (\<^verbatim>\<open>name\<close>, \<^verbatim>\<open>path\<close>,
  \<^verbatim>\<open>host\<close>, \<^verbatim>\<open>command\<close>, \<^verbatim>\<open>variable\<close>, \<^verbatim>\<open>kind\<close> and the eight permission names), on a
  value that is neither \<^verbatim>\<open>undefined\<close> nor \<^verbatim>\<open>null\<close>: a plain object gives its own
  property or \<^verbatim>\<open>undefined\<close>; primitives, arrays and \<^verbatim>\<open>URL\<close> objects are taken to
  have none of them.\<close>

fun GetProp :: "jsval \<Rightarrow> string \<Rightarrow> jsval" where
  "GetProp (JObj ps) p = (case map_of ps p of Some v \<Rightarrow> v | None \<Rightarrow> JUndefined)"
| "GetProp v p = JUndefined"

text \<open>\<^verbatim>\<open>ReflectHas(desc, p)\<close>: the property is there, whatever its value.\<close>

fun ReflectHas :: "jsval \<Rightarrow> string \<Rightarrow> bool" where
  "ReflectHas (JObj ps) p = (map_of ps p \<noteq> None)"
| "ReflectHas v p = False"

text \<open>\<^verbatim>\<open>desc.p = v\<close> on a plain object: the property is overwritten in place, or added
  at the end. (The file assigns only to descriptors that passed \<^verbatim>\<open>isValidDescriptor\<close>,
  which are plain objects here.)\<close>

fun put :: "string \<Rightarrow> jsval \<Rightarrow> (string \<times> jsval) list \<Rightarrow> (string \<times> jsval) list" where
  "put p v [] = [(p, v)]"
| "put p v ((q, u) # ps) = (if q = p then (p, v) # ps else (q, u) # put p v ps)"

fun SetProp :: "jsval \<Rightarrow> string \<Rightarrow> jsval \<Rightarrow> jsval" where
  "SetProp (JObj ps) p v = JObj (put p v ps)"
| "SetProp d p v = d"

text \<open>Truthiness, as \<^verbatim>\<open>if (x)\<close> and \<^verbatim>\<open>&&\<close> read a value.\<close>

fun ToBoolean :: "jsval \<Rightarrow> bool" where
  "ToBoolean JUndefined = False"
| "ToBoolean JNull = False"
| "ToBoolean (JBool b) = b"
| "ToBoolean (JStr s) = (s \<noteq> [])"
| "ToBoolean v = True"

text \<open>String conversion, as a template literal and \<^verbatim>\<open>+=\<close> on a string perform it.
  A symbol throws; an array joins its elements with commas, \<^verbatim>\<open>undefined\<close> and
  \<^verbatim>\<open>null\<close> elements giving the empty string. A plain object is converted by the
  \<^verbatim>\<open>toString\<close> it inherits, unless it has a \<^verbatim>\<open>toString\<close> property of its own: that one
  is not callable, \<^verbatim>\<open>valueOf\<close> gives no primitive either, and the conversion throws.\<close>

fun ToString :: "jsval \<Rightarrow> js_error + string"
  and ArrayJoin :: "jsval list \<Rightarrow> js_error + string" where
  "ToString JUndefined = Inr ''undefined''"
| "ToString JNull = Inr ''null''"
| "ToString (JBool b) = Inr (if b then ''true'' else ''false'')"
| "ToString (JStr s) = Inr s"
| "ToString (JSym n) = Inl (TypeError ''Cannot convert a Symbol value to a string'')"
| "ToString (JUrl u) = Inr u"
| "ToString (JObj ps) =
     (if map_of ps ''toString'' = None then Inr ''[object Object]''
      else Inl (TypeError ''Cannot convert object to primitive value''))"
| "ToString (JArr xs) = ArrayJoin xs"
| "ArrayJoin [] = Inr []"
| "ArrayJoin (x # xs) =
     (case (if x = JUndefined \<or> x = JNull then Inr [] else ToString x) of
        Inl e \<Rightarrow> Inl e
      | Inr s \<Rightarrow>
          (case ArrayJoin xs of
             Inl e \<Rightarrow> Inl e
           | Inr r \<Rightarrow> Inr (if xs = [] then s else s @ '','' @ r)))"

section \<open>Descriptors: validation and normalisation\<close>

definition permissionNames :: "jsval list" where
  "permissionNames =
     [JStr ''read'', JStr ''write'', JStr ''net'', JStr ''env'',
      JStr ''sys'', JStr ''run'', JStr ''ffi'', JStr ''hrtime'']"

definition ArrayPrototypeIncludes :: "jsval list \<Rightarrow> jsval \<Rightarrow> bool" where
  "ArrayPrototypeIncludes xs v = (v \<in> set xs)"

definition isValidDescriptor :: "jsval \<Rightarrow> bool" where
  "isValidDescriptor desc =
     (typeof desc = ''object'' \<and> desc \<noteq> JNull \<and>
      ArrayPrototypeIncludes permissionNames (GetProp desc ''name''))"

text \<open>\<^verbatim>\<open>formDescriptor\<close> assigns to the descriptor in place; the model returns the
  descriptor as it is after the assignment. \<^verbatim>\<open>pathFromURL\<close> is imported from the
  runtime's util module and is a parameter here: it may return any value or throw.\<close>

definition formDescriptor :: "(jsval \<Rightarrow> js_error + jsval) \<Rightarrow> jsval \<Rightarrow> js_error + jsval" where
  "formDescriptor pathFromURL desc =
     (if GetProp desc ''name'' = JStr ''read'' \<or> GetProp desc ''name'' = JStr ''write'' \<or>
         GetProp desc ''name'' = JStr ''ffi''
      then (case pathFromURL (GetProp desc ''path'') of
              Inl e \<Rightarrow> Inl e
            | Inr p \<Rightarrow> Inr (SetProp desc ''path'' p))
      else if GetProp desc ''name'' = JStr ''run''
      then (case pathFromURL (GetProp desc ''command'') of
              Inl e \<Rightarrow> Inl e
            | Inr c \<Rightarrow> Inr (SetProp desc ''command'' c))
      else Inr desc)"

section \<open>Key derivation\<close>

text \<open>\<^verbatim>\<open>key += `-${v}&`\<close>: the template literal converts \<open>v\<close> first, then \<^verbatim>\<open>+=\<close>
  converts the key.\<close>

definition with_field :: "jsval \<Rightarrow> jsval \<Rightarrow> js_error + string" where
  "with_field key v =
     (case ToString v of
        Inl e \<Rightarrow> Inl e
      | Inr s \<Rightarrow>
          (case ToString key of
             Inl e \<Rightarrow> Inl e
           | Inr k \<Rightarrow> Inr (k @ ''-'' @ s @ ''&'')))"

text \<open>\<^verbatim>\<open>key += "$"\<close>.\<close>

definition bare :: "jsval \<Rightarrow> js_error + string" where
  "bare key = (case ToString key of Inl e \<Rightarrow> Inl e | Inr k \<Rightarrow> Inr (k @ ''$''))"

text \<open>The first half of \<^verbatim>\<open>cache\<close> (lines 123 to 139): the key of a descriptor.\<close>

definition cache_key :: "jsval \<Rightarrow> js_error + string" where
  "cache_key desc =
     (let key = GetProp desc ''name'' in
      if (GetProp desc ''name'' = JStr ''read'' \<or> GetProp desc ''name'' = JStr ''write'' \<or>
          GetProp desc ''name'' = JStr ''ffi'') \<and> ReflectHas desc ''path''
      then with_field key (GetProp desc ''path'')
      else if GetProp desc ''name'' = JStr ''net'' \<and> ToBoolean (GetProp desc ''host'')
      then with_field key (GetProp desc ''host'')
      else if GetProp desc ''name'' = JStr ''run'' \<and> ToBoolean (GetProp desc ''command'')
      then with_field key (GetProp desc ''command'')
      else if GetProp desc ''name'' = JStr ''env'' \<and> ToBoolean (GetProp desc ''variable'')
      then with_field key (GetProp desc ''variable'')
      else if GetProp desc ''name'' = JStr ''sys'' \<and> ToBoolean (GetProp desc ''kind'')
      then with_field key (GetProp desc ''kind'')
      else bare key)"

section \<open>Status objects, the cache and the engine\<close>

datatype PermissionState = Granted | Denied | Prompt

text \<open>A cache record \<^verbatim>\<open>{ state, status }\<close>; \<open>scv_status\<close> is the address of its
  \<^verbatim>\<open>PermissionStatus\<close>.\<close>

record StatusCacheValue =
  scv_state :: PermissionState
  scv_status :: nat

text \<open>A listener or an \<^verbatim>\<open>onchange\<close> function, by what it is observed to do: it is
  called (and reads \<^verbatim>\<open>this.state\<close>), and it may call \<^verbatim>\<open>event.preventDefault()\<close>.\<close>

record handler =
  h_id :: nat
  h_preventDefault :: bool

record Event =
  ev_type :: string
  ev_cancelable :: bool
  ev_defaultPrevented :: bool

text \<open>A \<^verbatim>\<open>PermissionStatus\<close>: the private \<^verbatim>\<open>#state\<close> (the address of its cache
  record), the \<^verbatim>\<open>onchange\<close> slot (\<open>None\<close> is \<^verbatim>\<open>null\<close>) and the listeners its
  \<^verbatim>\<open>EventTarget\<close> part holds, each with the event type it was registered for.\<close>

record PermissionStatus =
  ps_state :: nat
  onchange :: "handler option"
  listeners :: "(string \<times> handler) list"

text \<open>What the outside sees happen, in order: a call to the decision engine, a
  \<^verbatim>\<open>dispatchEvent\<close> on a status object (with the state the object shows at that
  moment), a call of a handler (with the state it reads).\<close>

datatype trace_item =
    EngineCall string jsval
  | Dispatched nat Event PermissionState
  | Called nat nat PermissionState

record 'e world =
  statusCache :: "string \<Rightarrow> nat option"
  records :: "StatusCacheValue list"
  statuses :: "PermissionStatus list"
  engine :: 'e
  trace :: "trace_item list"

definition init :: "'e \<Rightarrow> 'e world" where
  "init e = \<lparr>statusCache = Map.empty, records = [], statuses = [], engine = e, trace = []\<rparr>"

text \<open>The three ops of the decision engine, \<^verbatim>\<open>ops.op_query_permission\<close> and its
  siblings: opaque, with a state of their own; each returns a state or throws.\<close>

record 'e ops =
  op_query_permission :: "jsval \<Rightarrow> 'e \<Rightarrow> (js_error + PermissionState) \<times> 'e"
  op_revoke_permission :: "jsval \<Rightarrow> 'e \<Rightarrow> (js_error + PermissionState) \<times> 'e"
  op_request_permission :: "jsval \<Rightarrow> 'e \<Rightarrow> (js_error + PermissionState) \<times> 'e"

definition call_op ::
  "string \<Rightarrow> (jsval \<Rightarrow> 'e \<Rightarrow> (js_error + PermissionState) \<times> 'e) \<Rightarrow> jsval \<Rightarrow> 'e world \<Rightarrow>
   (js_error + PermissionState) \<times> 'e world" where
  "call_op nm f desc w =
     (case f desc (engine w) of
        (r, e') \<Rightarrow> (r, w\<lparr>engine := e', trace := trace w @ [EngineCall nm desc]\<rparr>))"

definition opQuery :: "'e ops \<Rightarrow> jsval \<Rightarrow> 'e world \<Rightarrow> (js_error + PermissionState) \<times> 'e world" where
  "opQuery ops desc w = call_op ''op_query_permission'' (op_query_permission ops) desc w"

definition opRevoke :: "'e ops \<Rightarrow> jsval \<Rightarrow> 'e world \<Rightarrow> (js_error + PermissionState) \<times> 'e world" where
  "opRevoke ops desc w = call_op ''op_revoke_permission'' (op_revoke_permission ops) desc w"

definition opRequest :: "'e ops \<Rightarrow> jsval \<Rightarrow> 'e world \<Rightarrow> (js_error + PermissionState) \<times> 'e world" where
  "opRequest ops desc w = call_op ''op_request_permission'' (op_request_permission ops) desc w"

section \<open>PermissionStatus\<close>

text \<open>Modelled from the spec: \<^verbatim>\<open>illegalConstructorKey\<close> is imported from the runtime's
  web-util module and is not part of this file. The spec calls it the restricted
  construction token; it is a symbol here, so no other value is equal to it.\<close>

definition illegalConstructorKey :: jsval where
  "illegalConstructorKey = JSym 0"

text \<open>\<^verbatim>\<open>key != illegalConstructorKey\<close>, the loose comparison with a symbol: only the
  symbol itself is equal to it. An object is converted to a primitive first: an array by
  the join of its elements, which throws on a symbol; a plain object as in the string
  conversion, which throws when it has a \<^verbatim>\<open>toString\<close> property of its own.\<close>

fun loosely_differs :: "jsval \<Rightarrow> jsval \<Rightarrow> js_error + bool" where
  "loosely_differs (JArr xs) t =
     (case ArrayJoin xs of Inl e \<Rightarrow> Inl e | Inr s \<Rightarrow> Inr True)"
| "loosely_differs (JObj ps) t =
     (case ToString (JObj ps) of Inl e \<Rightarrow> Inl e | Inr s \<Rightarrow> Inr True)"
| "loosely_differs k t = Inr (k \<noteq> t)"

text \<open>The constructor: the guard, then \<^verbatim>\<open>super()\<close> and \<^verbatim>\<open>this.#state = state\<close>. The new
  object gets the next free address; \<open>state\<close> is the address of the cache record.\<close>

definition PermissionStatus_new ::
  "nat \<Rightarrow> jsval \<Rightarrow> 'e world \<Rightarrow> (js_error + nat) \<times> 'e world" where
  "PermissionStatus_new state key w =
     (case loosely_differs key illegalConstructorKey of
        Inl e \<Rightarrow> (Inl e, w)
      | Inr True \<Rightarrow> (Inl (TypeError ''Illegal constructor.''), w)
      | Inr False \<Rightarrow>
          (Inr (length (statuses w)),
           w\<lparr>statuses := statuses w @ [\<lparr>ps_state = state, onchange = None, listeners = []\<rparr>]\<rparr>))"

text \<open>The getter \<^verbatim>\<open>get state()\<close>: \<^verbatim>\<open>this.#state.state\<close>.\<close>

definition PermissionStatus_state :: "nat \<Rightarrow> 'e world \<Rightarrow> PermissionState" where
  "PermissionStatus_state this w = scv_state (records w ! ps_state (statuses w ! this))"

text \<open>Calling a handler with \<open>this\<close> and the event: the call is recorded with the state
  the handler reads, and \<^verbatim>\<open>preventDefault\<close> marks a cancelable event.\<close>

definition call_handler :: "handler \<Rightarrow> nat \<Rightarrow> Event \<Rightarrow> 'e world \<Rightarrow> Event \<times> 'e world" where
  "call_handler h this ev w =
     (if h_preventDefault h \<and> ev_cancelable ev then ev\<lparr>ev_defaultPrevented := True\<rparr> else ev,
      w\<lparr>trace := trace w @ [Called (h_id h) this (PermissionStatus_state this w)]\<rparr>)"

text \<open>Modelled from the spec: \<^verbatim>\<open>EventTarget\<close> is imported from the runtime's event
  module and is not part of this file. The spec gives it as ``register(listener),
  dispatch(event) -> bool-not-prevented'', with listeners run synchronously and in
  registration order: every listener registered for the event's type is called, and the
  result says whether the event is not prevented. A handler is taken not to call back
  into the facade or to throw.\<close>

fun run_listeners ::
  "(string \<times> handler) list \<Rightarrow> nat \<Rightarrow> Event \<Rightarrow> 'e world \<Rightarrow> Event \<times> 'e world" where
  "run_listeners [] this ev w = (ev, w)"
| "run_listeners ((ty, h) # ls) this ev w =
     (if ty = ev_type ev
      then (case call_handler h this ev w of (ev', w') \<Rightarrow> run_listeners ls this ev' w')
      else run_listeners ls this ev w)"

text \<open>Modelled from the spec: \<^verbatim>\<open>super.dispatchEvent(event)\<close>, the ``dispatch(event) ->
  bool-not-prevented'' of the same \<^verbatim>\<open>EventTarget\<close>.\<close>

definition EventTarget_dispatchEvent ::
  "nat \<Rightarrow> Event \<Rightarrow> 'e world \<Rightarrow> bool \<times> Event \<times> 'e world" where
  "EventTarget_dispatchEvent this ev w =
     (case run_listeners (listeners (statuses w ! this)) this ev w of
        (ev', w') \<Rightarrow> (\<not> ev_defaultPrevented ev', ev', w'))"

text \<open>Modelled from the spec: \<^verbatim>\<open>addEventListener\<close> of the same missing
  \<^verbatim>\<open>EventTarget\<close>, the spec's ``register(listener)''.\<close>

definition addEventListener :: "nat \<Rightarrow> string \<Rightarrow> handler \<Rightarrow> 'e world \<Rightarrow> 'e world" where
  "addEventListener this ty h w =
     w\<lparr>statuses := (statuses w)[this := (statuses w ! this)
          \<lparr>listeners := listeners (statuses w ! this) @ [(ty, h)]\<rparr>]\<rparr>"

text \<open>The assignment \<^verbatim>\<open>status.onchange = h\<close> to the public field.\<close>

definition set_onchange :: "nat \<Rightarrow> handler option \<Rightarrow> 'e world \<Rightarrow> 'e world" where
  "set_onchange this h w =
     w\<lparr>statuses := (statuses w)[this := (statuses w ! this)\<lparr>onchange := h\<rparr>]\<rparr>"

text \<open>\<^verbatim>\<open>PermissionStatus.dispatchEvent\<close> (lines 98 to 105). The trace gets the dispatch
  itself first, then the handlers' calls.\<close>

definition PermissionStatus_dispatchEvent ::
  "nat \<Rightarrow> Event \<Rightarrow> 'e world \<Rightarrow> bool \<times> Event \<times> 'e world" where
  "PermissionStatus_dispatchEvent this event w =
     (case EventTarget_dispatchEvent this event
             (w\<lparr>trace := trace w @ [Dispatched this event (PermissionStatus_state this w)]\<rparr>) of
        (dispatched, ev1, w1) \<Rightarrow>
          (case (dispatched, onchange (statuses w1 ! this)) of
             (True, Some h) \<Rightarrow>
               (case call_handler h this ev1 w1 of
                  (ev2, w2) \<Rightarrow> (\<not> ev_defaultPrevented ev2, ev2, w2))
           | _ \<Rightarrow> (dispatched, ev1, w1)))"

section \<open>The status cache\<close>

text \<open>\<^verbatim>\<open>new Event("change", { cancelable: false })\<close>.\<close>

definition change_event :: Event where
  "change_event = \<lparr>ev_type = ''change'', ev_cancelable = False, ev_defaultPrevented = False\<rparr>"

text \<open>\<^verbatim>\<open>cache\<close> (lines 122 to 153). For a new key the record \<^verbatim>\<open>{ state }\<close> takes the next
  free record address, the status object is constructed with that address and the token,
  and the record is stored with \<^verbatim>\<open>status\<close> set.\<close>

definition cache :: "jsval \<Rightarrow> PermissionState \<Rightarrow> 'e world \<Rightarrow> (js_error + nat) \<times> 'e world" where
  "cache desc state w =
     (case cache_key desc of
        Inl e \<Rightarrow> (Inl e, w)
      | Inr key \<Rightarrow>
          (case statusCache w key of
             Some r \<Rightarrow>
               (let status = records w ! r in
                if scv_state status \<noteq> state
                then (case PermissionStatus_dispatchEvent (scv_status status) change_event
                             (w\<lparr>records := (records w)[r := status\<lparr>scv_state := state\<rparr>]\<rparr>) of
                        (dispatched, ev, w') \<Rightarrow> (Inr (scv_status status), w'))
                else (Inr (scv_status status), w))
           | None \<Rightarrow>
               (let r = length (records w) in
                case PermissionStatus_new r illegalConstructorKey w of
                  (Inl e, w') \<Rightarrow> (Inl e, w')
                | (Inr s, w') \<Rightarrow>
                    (Inr s,
                     w'\<lparr>records := records w' @ [\<lparr>scv_state = state, scv_status = s\<rparr>],
                        statusCache := (statusCache w')(key \<mapsto> r)\<rparr>))))"

section \<open>The facade\<close>

text \<open>The error of a descriptor that fails validation. The message holds
  \<^verbatim>\<open>${desc?.name}\<close>; converting a symbol there throws a \<^verbatim>\<open>TypeError\<close> of its own.\<close>

definition invalid_descriptor :: "jsval \<Rightarrow> js_error" where
  "invalid_descriptor desc =
     (case ToString (if desc = JUndefined \<or> desc = JNull then JUndefined
                     else GetProp desc ''name'') of
        Inl e \<Rightarrow> e
      | Inr s \<Rightarrow>
          TypeError (''The provided value '' @ [CHR 0x22] @ s @ [CHR 0x22] @
                     '' is not a valid permission name.''))"

text \<open>The common body of \<^verbatim>\<open>querySync\<close>, \<^verbatim>\<open>revokeSync\<close> and \<^verbatim>\<open>requestSync\<close>, which
  differ in the engine op only.\<close>

definition immediate ::
  "(jsval \<Rightarrow> 'e world \<Rightarrow> (js_error + PermissionState) \<times> 'e world) \<Rightarrow>
   (jsval \<Rightarrow> js_error + jsval) \<Rightarrow> jsval \<Rightarrow> 'e world \<Rightarrow> (js_error + nat) \<times> 'e world" where
  "immediate op pathFromURL desc w =
     (if \<not> isValidDescriptor desc then (Inl (invalid_descriptor desc), w)
      else (case formDescriptor pathFromURL desc of
              Inl e \<Rightarrow> (Inl e, w)
            | Inr d \<Rightarrow>
                (case op d w of
                   (Inl e, w') \<Rightarrow> (Inl e, w')
                 | (Inr state, w') \<Rightarrow> cache d state w')))"

definition querySync ::
  "'e ops \<Rightarrow> (jsval \<Rightarrow> js_error + jsval) \<Rightarrow> jsval \<Rightarrow> 'e world \<Rightarrow> (js_error + nat) \<times> 'e world" where
  "querySync ops pathFromURL desc w = immediate (opQuery ops) pathFromURL desc w"

definition revokeSync ::
  "'e ops \<Rightarrow> (jsval \<Rightarrow> js_error + jsval) \<Rightarrow> jsval \<Rightarrow> 'e world \<Rightarrow> (js_error + nat) \<times> 'e world" where
  "revokeSync ops pathFromURL desc w = immediate (opRevoke ops) pathFromURL desc w"

definition requestSync ::
  "'e ops \<Rightarrow> (jsval \<Rightarrow> js_error + jsval) \<Rightarrow> jsval \<Rightarrow> 'e world \<Rightarrow> (js_error + nat) \<times> 'e world" where
  "requestSync ops pathFromURL desc w = immediate (opRequest ops) pathFromURL desc w"

text \<open>A promise as \<^verbatim>\<open>PromiseResolve\<close> and \<^verbatim>\<open>PromiseReject\<close> return it: already
  settled.\<close>

datatype 'a promise = Resolved 'a | Rejected js_error

text \<open>\<^verbatim>\<open>try { return PromiseResolve(f(desc)) } catch (error) { return PromiseReject(error) }\<close>.\<close>

definition deferred :: "(js_error + 'a) \<times> 'w \<Rightarrow> 'a promise \<times> 'w" where
  "deferred r = (case r of (Inl error, w) \<Rightarrow> (Rejected error, w) | (Inr v, w) \<Rightarrow> (Resolved v, w))"

definition query ::
  "'e ops \<Rightarrow> (jsval \<Rightarrow> js_error + jsval) \<Rightarrow> jsval \<Rightarrow> 'e world \<Rightarrow> nat promise \<times> 'e world" where
  "query ops pathFromURL desc w = deferred (querySync ops pathFromURL desc w)"

definition revoke ::
  "'e ops \<Rightarrow> (jsval \<Rightarrow> js_error + jsval) \<Rightarrow> jsval \<Rightarrow> 'e world \<Rightarrow> nat promise \<times> 'e world" where
  "revoke ops pathFromURL desc w = deferred (revokeSync ops pathFromURL desc w)"

definition request ::
  "'e ops \<Rightarrow> (jsval \<Rightarrow> js_error + jsval) \<Rightarrow> jsval \<Rightarrow> 'e world \<Rightarrow> nat promise \<times> 'e world" where
  "request ops pathFromURL desc w = deferred (requestSync ops pathFromURL desc w)"




section \<open>serializePermissions\<close>

text \<open>\<^verbatim>\<open>ArrayPrototypeMap(xs, (path) => pathFromURL(path))\<close>: the first element that
  throws ends the map.\<close>

fun ArrayPrototypeMap :: "(jsval \<Rightarrow> js_error + jsval) \<Rightarrow> jsval list \<Rightarrow> js_error + jsval list" where
  "ArrayPrototypeMap f [] = Inr []"
| "ArrayPrototypeMap f (x # xs) =
     (case f x of
        Inl e \<Rightarrow> Inl e
      | Inr y \<Rightarrow> (case ArrayPrototypeMap f xs of Inl e \<Rightarrow> Inl e | Inr ys \<Rightarrow> Inr (y # ys)))"

definition ArrayPrototypeSlice :: "jsval list \<Rightarrow> jsval list" where
  "ArrayPrototypeSlice xs = xs"

text \<open>The first loop, over \<^verbatim>\<open>["read", "write", "run", "ffi"]\<close>; \<open>acc\<close> is
  \<^verbatim>\<open>serializedPermissions\<close> so far, and \<^verbatim>\<open>ArrayIsArray\<close> is the \<open>JArr\<close> case.\<close>

fun serialize_paths ::
  "(jsval \<Rightarrow> js_error + jsval) \<Rightarrow> jsval \<Rightarrow> string list \<Rightarrow> (string \<times> jsval) list \<Rightarrow>
   js_error + (string \<times> jsval) list" where
  "serialize_paths pathFromURL permissions [] acc = Inr acc"
| "serialize_paths pathFromURL permissions (key # keys) acc =
     (case GetProp permissions key of
        JArr xs \<Rightarrow>
          (case ArrayPrototypeMap pathFromURL xs of
             Inl e \<Rightarrow> Inl e
           | Inr ys \<Rightarrow> serialize_paths pathFromURL permissions keys (put key (JArr ys) acc))
      | v \<Rightarrow> serialize_paths pathFromURL permissions keys (put key v acc))"

text \<open>The second loop, over \<^verbatim>\<open>["env", "hrtime", "net", "sys"]\<close>.\<close>

fun serialize_lists ::
  "jsval \<Rightarrow> string list \<Rightarrow> (string \<times> jsval) list \<Rightarrow> (string \<times> jsval) list" where
  "serialize_lists permissions [] acc = acc"
| "serialize_lists permissions (key # keys) acc =
     (case GetProp permissions key of
        JArr xs \<Rightarrow> serialize_lists permissions keys (put key (JArr (ArrayPrototypeSlice xs)) acc)
      | v \<Rightarrow> serialize_lists permissions keys (put key v acc))"

text \<open>\<^verbatim>\<open>permissions != null\<close> is the loose comparison: \<^verbatim>\<open>undefined\<close> fails it too.\<close>

definition serializePermissions ::
  "(jsval \<Rightarrow> js_error + jsval) \<Rightarrow> jsval \<Rightarrow> js_error + jsval" where
  "serializePermissions pathFromURL permissions =
     (if typeof permissions = ''object'' \<and> permissions \<noteq> JNull \<and> permissions \<noteq> JUndefined
      then (case serialize_paths pathFromURL permissions [''read'', ''write'', ''run'', ''ffi''] [] of
              Inl e \<Rightarrow> Inl e
            | Inr acc \<Rightarrow>
                Inr (JObj (serialize_lists permissions [''env'', ''hrtime'', ''net'', ''sys''] acc)))
      else Inr permissions)"

text \<open>What the first loop makes of a value: an array becomes the array of its elements'
  conversions, any other value is carried over.\<close>

definition converted :: "(jsval \<Rightarrow> js_error + jsval) \<Rightarrow> jsval \<Rightarrow> jsval \<Rightarrow> bool" where
  "converted pathFromURL v v' =
     (case v of
        JArr xs \<Rightarrow> (\<exists>ys. v' = JArr ys \<and> list_all2 (\<lambda>x y. pathFromURL x = Inr y) xs ys)
      | _ \<Rightarrow> v' = v)"

section \<open>The identifying sub-field\<close>




section \<open>Coherent worlds\<close>

text \<open>What every world built by the cache satisfies: a key's record exists; two keys never
  share a record; a record's status object exists and points back at the record (so two
  records never share a status object).\<close>

definition coherent :: "'e world \<Rightarrow> bool" where
  "coherent w =
     ((\<forall>k r. statusCache w k = Some r \<longrightarrow> r < length (records w)) \<and>
      (\<forall>k k' r. statusCache w k = Some r \<and> statusCache w k' = Some r \<longrightarrow> k = k') \<and>
      (\<forall>r. r < length (records w) \<longrightarrow>
         scv_status (records w ! r) < length (statuses w) \<and>
         ps_state (statuses w ! scv_status (records w ! r)) = r))"

text \<open>A later world extends an earlier one: every key keeps its record, and every record
  keeps its status object.\<close>

definition extends :: "'e world \<Rightarrow> 'e world \<Rightarrow> bool" where
  "extends w w' =
     ((\<forall>k r. statusCache w k = Some r \<longrightarrow> statusCache w' k = Some r) \<and>
      length (records w) \<le> length (records w') \<and>
      (\<forall>r. r < length (records w) \<longrightarrow>
         scv_status (records w' ! r) = scv_status (records w ! r)))"

section \<open>Words for what a dispatch does\<close>

text \<open>The event is prevented once the listeners have run: it was prevented before, or
  it is cancelable and a listener registered for its type calls \<^verbatim>\<open>preventDefault\<close>.\<close>

definition prevented_after_listeners :: "PermissionStatus \<Rightarrow> Event \<Rightarrow> bool" where
  "prevented_after_listeners ps ev =
     (ev_defaultPrevented ev \<or>
      (ev_cancelable ev \<and>
       (\<exists>(ty, h) \<in> set (listeners ps). ty = ev_type ev \<and> h_preventDefault h)))"

text \<open>The calls of the listeners registered for the event's type, in registration
  order, each reading the state \<open>st\<close>.\<close>

definition listener_calls :: "nat \<Rightarrow> PermissionStatus \<Rightarrow> Event \<Rightarrow> PermissionState \<Rightarrow> trace_item list" where
  "listener_calls this ps ev st =
     map (\<lambda>(ty, h). Called (h_id h) this st)
         (filter (\<lambda>(ty, h). ty = ev_type ev) (listeners ps))"

section \<open>Fixtures for the examples\<close>

text \<open>An engine that answers from a script, one state per call, and throws when the
  script is used up.\<close>

definition scripted ::
  "jsval \<Rightarrow> PermissionState list \<Rightarrow> (js_error + PermissionState) \<times> PermissionState list" where
  "scripted desc e =
     (case e of [] \<Rightarrow> (Inl (HostError ''engine''), []) | s # ss \<Rightarrow> (Inr s, ss))"

definition scripted_ops :: "PermissionState list ops" where
  "scripted_ops =
     \<lparr>op_query_permission = scripted, op_revoke_permission = scripted,
      op_request_permission = scripted\<rparr>"

text \<open>Modelled from the spec: a \<^verbatim>\<open>pathFromURL\<close> for the examples (the function is in
  the runtime's util module, not in this file). A URL-like value becomes a plain path
  string, here the part of a \<^verbatim>\<open>file://\<close> URL after the scheme; a URL of another scheme
  throws; any other value is returned as it is.\<close>

definition pathFromURL_posix :: "jsval \<Rightarrow> js_error + jsval" where
  "pathFromURL_posix v =
     (case v of
        JUrl href \<Rightarrow>
          (if take 7 href = ''file://'' then Inr (JStr (drop 7 href))
           else Inl (TypeError ''Must be a file URL.''))
      | _ \<Rightarrow> Inr v)"

text \<open>A world with one status object (for \<^verbatim>\<open>{ name: "hrtime" }\<close>, granted) that has a
  listener for \<^verbatim>\<open>change\<close> calling \<^verbatim>\<open>preventDefault\<close>, and an \<^verbatim>\<open>onchange\<close> function
  that does not.\<close>

definition preventing_listener :: handler where
  "preventing_listener = \<lparr>h_id = 1, h_preventDefault = True\<rparr>"

definition quiet_onchange :: handler where
  "quiet_onchange = \<lparr>h_id = 2, h_preventDefault = False\<rparr>"

definition watched_world :: "PermissionState list world" where
  "watched_world =
     set_onchange 0 (Some quiet_onchange)
       (addEventListener 0 ''change'' preventing_listener
         (snd (querySync scripted_ops pathFromURL_posix (JObj [(''name'', JStr ''hrtime'')])
                 (init [Granted, Denied]))))"

definition cancelable_change :: Event where
  "cancelable_change = \<lparr>ev_type = ''change'', ev_cancelable = True, ev_defaultPrevented = False\<rparr>"

section \<open>Dispatch: what the handlers see and do\<close>

lemma prevented_upd_eq:
  "(ev\<lparr>ev_defaultPrevented := a\<rparr> = ev\<lparr>ev_defaultPrevented := b\<rparr>) = (a = b)"
  by (cases ev) simp

text \<open>Running the listeners, in closed form: the event ends prevented if it was, or if it
  is cancelable and a listener for its type prevents it; the trace gets one call per
  listener for its type, in registration order. Nothing else changes.\<close>

lemma run_listeners_eq:
  "run_listeners ls this ev w =
     (ev\<lparr>ev_defaultPrevented := ev_defaultPrevented ev \<or>
          (ev_cancelable ev \<and> (\<exists>h. (ev_type ev, h) \<in> set ls \<and> h_preventDefault h))\<rparr>,
      w\<lparr>trace := trace w @
          map (\<lambda>(ty, h). Called (h_id h) this (PermissionStatus_state this w))
              (filter (\<lambda>(ty, h). ty = ev_type ev) ls)\<rparr>)"
proof (induction ls arbitrary: ev w)
  case Nil
  show ?case by simp
next
  case (Cons a ls)
  obtain ty h where a: "a = (ty, h)" by (cases a)
  show ?case
    unfolding a
    by (auto simp add: Cons.IH call_handler_def PermissionStatus_state_def prevented_upd_eq)
qed

section \<open>The cache, case by case\<close>

lemma dispatch_frame:
  assumes "PermissionStatus_dispatchEvent this ev w = (b, ev', w')"
  shows "statusCache w' = statusCache w \<and> records w' = records w \<and>
         statuses w' = statuses w \<and> engine w' = engine w"
  using assms
  by (auto simp add: PermissionStatus_dispatchEvent_def EventTarget_dispatchEvent_def
        run_listeners_eq call_handler_def split: option.splits bool.splits)

lemma cache_error: "cache_key d = Inl e \<Longrightarrow> cache d st w = (Inl e, w)"
  by (simp add: cache_def)

lemma cache_hit_same:
  "cache_key d = Inr k \<Longrightarrow> statusCache w k = Some r \<Longrightarrow> scv_state (records w ! r) = st \<Longrightarrow>
   cache d st w = (Inr (scv_status (records w ! r)), w)"
  by (simp add: cache_def)

lemma cache_hit_changed:
  assumes "cache_key d = Inr k" "statusCache w k = Some r" "scv_state (records w ! r) \<noteq> st"
  shows "\<exists>w'. cache d st w = (Inr (scv_status (records w ! r)), w') \<and>
           statusCache w' = statusCache w \<and>
           records w' = (records w)[r := (records w ! r)\<lparr>scv_state := st\<rparr>] \<and>
           statuses w' = statuses w \<and> engine w' = engine w"
proof -
  let ?w1 = "w\<lparr>records := (records w)[r := (records w ! r)\<lparr>scv_state := st\<rparr>]\<rparr>"
  obtain b ev' w' where d: "PermissionStatus_dispatchEvent (scv_status (records w ! r)) change_event ?w1 = (b, ev', w')"
    by (cases "PermissionStatus_dispatchEvent (scv_status (records w ! r)) change_event ?w1") auto
  from dispatch_frame[OF d] assms d show ?thesis
    by (simp add: cache_def Let_def)
qed

lemma new_with_token:
  "PermissionStatus_new r illegalConstructorKey w =
     (Inr (length (statuses w)),
      w\<lparr>statuses := statuses w @ [\<lparr>ps_state = r, onchange = None, listeners = []\<rparr>]\<rparr>)"
  by (simp add: PermissionStatus_new_def illegalConstructorKey_def)

lemma cache_miss:
  "cache_key d = Inr k \<Longrightarrow> statusCache w k = None \<Longrightarrow>
   cache d st w =
     (Inr (length (statuses w)),
      w\<lparr>statuses := statuses w @ [\<lparr>ps_state = length (records w), onchange = None, listeners = []\<rparr>],
        records := records w @ [\<lparr>scv_state = st, scv_status = length (statuses w)\<rparr>],
        statusCache := (statusCache w)(k \<mapsto> length (records w))\<rparr>)"
  by (simp add: cache_def new_with_token Let_def)

section \<open>Coherence is kept\<close>

lemma nth_upd_scv_status:
  "scv_status ((rs[r := (rs ! r)\<lparr>scv_state := st\<rparr>]) ! i) = scv_status (rs ! i)"
  by (cases "i = r"; cases "r < length rs") (simp_all add: list_update_beyond)

lemma coherent_hit:
  assumes "coherent w" "statusCache w' = statusCache w"
    "records w' = (records w)[r := (records w ! r)\<lparr>scv_state := st\<rparr>]"
    "statuses w' = statuses w"
  shows "coherent w' \<and> extends w w'"
  using assms by (simp add: coherent_def extends_def nth_upd_scv_status)

lemma coherent_miss:
  assumes "coherent w" "statusCache w k = None"
  shows "coherent (w\<lparr>statuses := statuses w @ [\<lparr>ps_state = length (records w), onchange = None, listeners = []\<rparr>],
        records := records w @ [\<lparr>scv_state = st, scv_status = length (statuses w)\<rparr>],
        statusCache := (statusCache w)(k \<mapsto> length (records w))\<rparr>) \<and>
     extends w (w\<lparr>statuses := statuses w @ [\<lparr>ps_state = length (records w), onchange = None, listeners = []\<rparr>],
        records := records w @ [\<lparr>scv_state = st, scv_status = length (statuses w)\<rparr>],
        statusCache := (statusCache w)(k \<mapsto> length (records w))\<rparr>)"
  using assms
  apply (simp add: coherent_def extends_def nth_append)
  apply (intro conjI allI impI)
  apply (auto simp add: less_Suc_eq nth_append)
  done

lemma extends_refl: "extends w w"
  by (simp add: extends_def)



lemma cache_step:
  assumes coh: "coherent w" and c: "cache d st w = (res, w')"
  shows "coherent w' \<and> extends w w' \<and>
         (\<forall>a. res = Inr a \<longrightarrow>
            (\<exists>k r. cache_key d = Inr k \<and> statusCache w' k = Some r \<and>
                   scv_status (records w' ! r) = a)) \<and>
         (\<forall>e. res = Inl e \<longrightarrow> w' = w)"
proof (cases "cache_key d")
  case (Inl e)
  with c coh show ?thesis by (auto simp add: cache_error extends_refl)
next
  case (Inr k)
  show ?thesis
  proof (cases "statusCache w k")
    case None
    from cache_miss[OF Inr None, of st] c coherent_miss[OF coh None, of st] Inr
    show ?thesis by auto
  next
    case (Some r)
    show ?thesis
    proof (cases "scv_state (records w ! r) = st")
      case True
      from cache_hit_same[OF Inr Some True] c coh Inr Some
      show ?thesis by (auto simp add: extends_refl)
    next
      case False
      from cache_hit_changed[OF Inr Some False] c
      have w': "statusCache w' = statusCache w"
        "records w' = (records w)[r := (records w ! r)\<lparr>scv_state := st\<rparr>]"
        "statuses w' = statuses w" and res: "res = Inr (scv_status (records w ! r))"
        by auto
      from coherent_hit[OF coh w'] w' res Inr Some
      show ?thesis by (simp add: nth_upd_scv_status)
    qed
  qed
qed






lemma coherent_init: "coherent (init e)"
  by (simp add: coherent_def init_def)

text \<open>The definitions an example unfolds to run the facade on concrete input.\<close>

lemmas facade_defs =
  querySync_def requestSync_def revokeSync_def immediate_def isValidDescriptor_def
  permissionNames_def ArrayPrototypeIncludes_def formDescriptor_def opQuery_def opRequest_def
  opRevoke_def call_op_def scripted_ops_def scripted_def init_def cache_def cache_key_def
  bare_def with_field_def PermissionStatus_new_def illegalConstructorKey_def
  pathFromURL_posix_def PermissionStatus_dispatchEvent_def EventTarget_dispatchEvent_def
  call_handler_def change_event_def PermissionStatus_state_def invalid_descriptor_def

section \<open>Validation\<close>

lemma ToString_TypeError: "ToString v = Inl e \<Longrightarrow> \<exists>m. e = TypeError m"
  and ArrayJoin_TypeError: "ArrayJoin xs = Inl e \<Longrightarrow> \<exists>m. e = TypeError m"
  by (induction v and xs rule: ToString_ArrayJoin.induct)
     (auto split: sum.splits if_splits)

lemma invalid_descriptor_TypeError: "\<exists>m. invalid_descriptor d = TypeError m"
  by (auto simp add: invalid_descriptor_def split: sum.splits dest: ToString_TypeError)

text \<open>
  Claim C4 (validation). An argument that is not an object, is \<^verbatim>\<open>null\<close>, or whose
  \<^verbatim>\<open>name\<close> is not one of the eight permission names makes each of \<^verbatim>\<open>querySync\<close>,
  \<^verbatim>\<open>requestSync\<close> and \<^verbatim>\<open>revokeSync\<close> throw a \<^verbatim>\<open>TypeError\<close>, and each of \<^verbatim>\<open>query\<close>,
  \<^verbatim>\<open>request\<close> and \<^verbatim>\<open>revoke\<close> return a promise rejected with it. The world is the one
  before the call: the engine was not called (the trace and the engine's state are
  unchanged) and the cache was not touched.
\<close>

theorem validation:
  assumes "typeof desc \<noteq> ''object'' \<or> desc = JNull \<or>
           GetProp desc ''name'' \<notin> set permissionNames"
  shows "\<exists>msg. querySync ops pfu desc w = (Inl (TypeError msg), w) \<and>
               requestSync ops pfu desc w = (Inl (TypeError msg), w) \<and>
               revokeSync ops pfu desc w = (Inl (TypeError msg), w) \<and>
               query ops pfu desc w = (Rejected (TypeError msg), w) \<and>
               request ops pfu desc w = (Rejected (TypeError msg), w) \<and>
               revoke ops pfu desc w = (Rejected (TypeError msg), w)"
proof -
  from assms have "\<not> isValidDescriptor desc"
    by (auto simp add: isValidDescriptor_def ArrayPrototypeIncludes_def)
  moreover obtain msg where "invalid_descriptor desc = TypeError msg"
    using invalid_descriptor_TypeError by blast
  ultimately show ?thesis
    by (simp add: querySync_def requestSync_def revokeSync_def query_def request_def
          revoke_def immediate_def deferred_def)
qed


text \<open>\<^verbatim>\<open>query({})\<close>, \<^verbatim>\<open>query({name: "bogus"})\<close> and \<^verbatim>\<open>query(null)\<close>.\<close>

theorem validation_witness:
  "GetProp (JObj []) ''name'' \<notin> set permissionNames \<and>
   (\<exists>msg. query scripted_ops pathFromURL_posix (JObj []) (init [Granted]) =
            (Rejected (TypeError msg), init [Granted])) \<and>
   GetProp (JObj [(''name'', JStr ''bogus'')]) ''name'' \<notin> set permissionNames \<and>
   (\<exists>msg. query scripted_ops pathFromURL_posix (JObj [(''name'', JStr ''bogus'')]) (init [Granted]) =
            (Rejected (TypeError msg), init [Granted])) \<and>
   (\<exists>msg. query scripted_ops pathFromURL_posix JNull (init [Granted]) =
            (Rejected (TypeError msg), init [Granted]))"
proof -
  have h1: "GetProp (JObj []) ''name'' \<notin> set permissionNames"
    and h2: "GetProp (JObj [(''name'', JStr ''bogus'')]) ''name'' \<notin> set permissionNames"
    by (simp_all add: permissionNames_def)
  from h1 h2
    validation[of "JObj []" scripted_ops pathFromURL_posix "init [Granted]"]
    validation[of "JObj [(''name'', JStr ''bogus'')]" scripted_ops pathFromURL_posix "init [Granted]"]
    validation[of JNull scripted_ops pathFromURL_posix "init [Granted]"]
  show ?thesis by blast
qed

section \<open>Deferred and immediate forms\<close>

text \<open>
  Claim C9 (deferred-immediate equivalence). \<^verbatim>\<open>query(desc)\<close> returns a promise resolved
  with the very value \<^verbatim>\<open>querySync(desc)\<close> returns, or rejected with the very error it
  throws, and leaves the world as \<^verbatim>\<open>querySync\<close> leaves it; likewise \<^verbatim>\<open>request\<close> and
  \<^verbatim>\<open>revoke\<close>. The promise is settled when it is returned.
\<close>

theorem deferred_immediate_equivalence:
  "(\<forall>v w'. querySync ops pfu desc w = (Inr v, w') \<longrightarrow> query ops pfu desc w = (Resolved v, w')) \<and>
   (\<forall>e w'. querySync ops pfu desc w = (Inl e, w') \<longrightarrow> query ops pfu desc w = (Rejected e, w')) \<and>
   (\<forall>v w'. requestSync ops pfu desc w = (Inr v, w') \<longrightarrow> request ops pfu desc w = (Resolved v, w')) \<and>
   (\<forall>e w'. requestSync ops pfu desc w = (Inl e, w') \<longrightarrow> request ops pfu desc w = (Rejected e, w')) \<and>
   (\<forall>v w'. revokeSync ops pfu desc w = (Inr v, w') \<longrightarrow> revoke ops pfu desc w = (Resolved v, w')) \<and>
   (\<forall>e w'. revokeSync ops pfu desc w = (Inl e, w') \<longrightarrow> revoke ops pfu desc w = (Rejected e, w'))"
  by (simp add: query_def request_def revoke_def deferred_def)

text \<open>A query that succeeds, and a revoke whose engine op throws.\<close>

theorem deferred_immediate_equivalence_witness:
  "fst (querySync scripted_ops pathFromURL_posix (JObj [(''name'', JStr ''hrtime'')]) (init [Granted])) = Inr 0 \<and>
   fst (query scripted_ops pathFromURL_posix (JObj [(''name'', JStr ''hrtime'')]) (init [Granted])) = Resolved 0 \<and>
   fst (revokeSync scripted_ops pathFromURL_posix (JObj [(''name'', JStr ''env'')]) (init [])) = Inl (HostError ''engine'') \<and>
   fst (revoke scripted_ops pathFromURL_posix (JObj [(''name'', JStr ''env'')]) (init [])) = Rejected (HostError ''engine'')"
proof -
  let ?d = "JObj [(''name'', JStr ''hrtime'')]" and ?d' = "JObj [(''name'', JStr ''env'')]"
  have q: "fst (querySync scripted_ops pathFromURL_posix ?d (init [Granted])) = Inr 0"
    by (simp add: facade_defs)
  have r: "fst (revokeSync scripted_ops pathFromURL_posix ?d' (init [])) = Inl (HostError ''engine'')"
    by (simp add: facade_defs)
  from q r
    deferred_immediate_equivalence[of scripted_ops pathFromURL_posix ?d "init [Granted]"]
    deferred_immediate_equivalence[of scripted_ops pathFromURL_posix ?d' "init []"]
  show ?thesis by (metis fst_conv prod.collapse)
qed

section \<open>The construction guard\<close>

lemma loosely_differs_cases:
  "key \<noteq> t \<Longrightarrow> (\<exists>m. loosely_differs key t = Inl (TypeError m)) \<or> loosely_differs key t = Inr True"
  by (cases key) (auto split: sum.splits dest: ArrayJoin_TypeError)

text \<open>
  Claim C10 (construction guard). Constructing a \<^verbatim>\<open>PermissionStatus\<close> with a key that is
  not \<^verbatim>\<open>illegalConstructorKey\<close> throws a \<^verbatim>\<open>TypeError\<close> and leaves the world as it was:
  no object is made and no state attached. With the token, which in this file only
  \<^verbatim>\<open>cache\<close> passes, the construction succeeds.
\<close>

theorem construction_guard:
  "(key \<noteq> illegalConstructorKey \<longrightarrow>
      (\<exists>msg. PermissionStatus_new state key w = (Inl (TypeError msg), w))) \<and>
   PermissionStatus_new state illegalConstructorKey w =
     (Inr (length (statuses w)),
      w\<lparr>statuses := statuses w @ [\<lparr>ps_state = state, onchange = None, listeners = []\<rparr>]\<rparr>)"
proof (intro conjI impI)
  assume "key \<noteq> illegalConstructorKey"
  from loosely_differs_cases[OF this]
  show "\<exists>msg. PermissionStatus_new state key w = (Inl (TypeError msg), w)"
    by (auto simp add: PermissionStatus_new_def)
next
  show "PermissionStatus_new state illegalConstructorKey w =
     (Inr (length (statuses w)),
      w\<lparr>statuses := statuses w @ [\<lparr>ps_state = state, onchange = None, listeners = []\<rparr>]\<rparr>)"
    by (rule new_with_token)
qed

text \<open>The default key \<^verbatim>\<open>null\<close>, another symbol, and an array holding the token (whose
  conversion to a primitive throws).\<close>

theorem construction_guard_witness:
  "JNull \<noteq> illegalConstructorKey \<and>
   PermissionStatus_new 0 JNull (init ()) = (Inl (TypeError ''Illegal constructor.''), init ()) \<and>
   PermissionStatus_new 0 (JSym 1) (init ()) = (Inl (TypeError ''Illegal constructor.''), init ()) \<and>
   (\<exists>msg. PermissionStatus_new 0 (JArr [JSym 0]) (init ()) = (Inl (TypeError msg), init ())) \<and>
   fst (PermissionStatus_new 0 illegalConstructorKey (init ())) = Inr 0"
proof -
  have "JNull \<noteq> illegalConstructorKey" "JArr [JSym 0] \<noteq> illegalConstructorKey"
    by (simp_all add: illegalConstructorKey_def)
  with construction_guard[of JNull 0 "init ()"] construction_guard[of "JArr [JSym 0]" 0 "init ()"]
  show ?thesis
    by (simp add: PermissionStatus_new_def illegalConstructorKey_def init_def)
qed

section \<open>dispatchEvent\<close>

text \<open>\<^verbatim>\<open>PermissionStatus.dispatchEvent\<close> in closed form.\<close>

lemma dispatch_eq:
  "PermissionStatus_dispatchEvent this ev w =
     (let st = PermissionStatus_state this w; ps = statuses w ! this;
          p = prevented_after_listeners ps ev
      in case onchange ps of
           None \<Rightarrow>
             (\<not> p, ev\<lparr>ev_defaultPrevented := p\<rparr>,
              w\<lparr>trace := trace w @ Dispatched this ev st # listener_calls this ps ev st\<rparr>)
         | Some h \<Rightarrow>
             if p
             then (False, ev\<lparr>ev_defaultPrevented := True\<rparr>,
                   w\<lparr>trace := trace w @ Dispatched this ev st # listener_calls this ps ev st\<rparr>)
             else (\<not> (h_preventDefault h \<and> ev_cancelable ev),
                   ev\<lparr>ev_defaultPrevented := h_preventDefault h \<and> ev_cancelable ev\<rparr>,
                   w\<lparr>trace := trace w @ Dispatched this ev st # listener_calls this ps ev st @
                                 [Called (h_id h) this st]\<rparr>))"
proof -
  show ?thesis
    by (auto simp add: PermissionStatus_dispatchEvent_def EventTarget_dispatchEvent_def
          run_listeners_eq call_handler_def PermissionStatus_state_def Let_def
          prevented_after_listeners_def listener_calls_def prevented_upd_eq
          split: option.splits bool.splits)
qed


text \<open>
  Claim C7 (dispatch semantics), as amended. \<^verbatim>\<open>dispatchEvent\<close> calls every listener
  registered for the event's type, in order. It then calls the \<^verbatim>\<open>onchange\<close> function only
  if there is one and the event is not prevented once the listeners have run. A listener as
  well as the \<^verbatim>\<open>onchange\<close> function can mark a cancelable event prevented. The result is
  true exactly when the event is not prevented at the end. The cache, its records and the
  status objects are left as they were.
\<close>

theorem dispatch_semantics:
  assumes "PermissionStatus_dispatchEvent this ev w = (b, ev', w')"
  shows "b = (\<not> ev_defaultPrevented ev') \<and>
         ev_defaultPrevented ev' =
           (prevented_after_listeners (statuses w ! this) ev \<or>
            (ev_cancelable ev \<and>
             (\<exists>h. onchange (statuses w ! this) = Some h \<and> h_preventDefault h))) \<and>
         trace w' =
           trace w @
           Dispatched this ev (PermissionStatus_state this w) #
           listener_calls this (statuses w ! this) ev (PermissionStatus_state this w) @
           (case onchange (statuses w ! this) of
              Some h \<Rightarrow>
                if prevented_after_listeners (statuses w ! this) ev then []
                else [Called (h_id h) this (PermissionStatus_state this w)]
            | None \<Rightarrow> []) \<and>
         statusCache w' = statusCache w \<and> records w' = records w \<and> statuses w' = statuses w"
  using assms
  by (cases "onchange (statuses w ! this)";
      cases "prevented_after_listeners (statuses w ! this) ev")
     (auto simp add: dispatch_eq Let_def)

text \<open>The example world, written out.\<close>

lemma watched_world_eq:
  "watched_world =
     \<lparr>statusCache = [''hrtime$'' \<mapsto> 0],
      records = [\<lparr>scv_state = Granted, scv_status = 0\<rparr>],
      statuses = [\<lparr>ps_state = 0, onchange = Some quiet_onchange,
                   listeners = [(''change'', preventing_listener)]\<rparr>],
      engine = [Denied],
      trace = [EngineCall ''op_query_permission'' (JObj [(''name'', JStr ''hrtime'')])]\<rparr>"
  by (simp add: watched_world_def set_onchange_def addEventListener_def facade_defs)

lemma coherent_watched_world: "coherent watched_world"
  by (auto simp add: coherent_def watched_world_eq split: if_splits)

text \<open>The cache's own event on the example world: not cancelable, so the listener and the
  \<^verbatim>\<open>onchange\<close> function are both called and the result is true.\<close>

theorem dispatch_semantics_witness:
  "fst (PermissionStatus_dispatchEvent 0 change_event watched_world) \<and>
   trace (snd (snd (PermissionStatus_dispatchEvent 0 change_event watched_world))) =
     trace watched_world @
     [Dispatched 0 change_event Granted, Called 1 0 Granted, Called 2 0 Granted]"
  using dispatch_semantics[of 0 change_event watched_world
      "fst (PermissionStatus_dispatchEvent 0 change_event watched_world)"
      "fst (snd (PermissionStatus_dispatchEvent 0 change_event watched_world))"
      "snd (snd (PermissionStatus_dispatchEvent 0 change_event watched_world))"]
  by (simp add: watched_world_eq prevented_after_listeners_def listener_calls_def
        change_event_def PermissionStatus_state_def quiet_onchange_def preventing_listener_def)

text \<open>
  Claim C7 as stated fails on a cancelable event that a listener prevents: the
  \<^verbatim>\<open>onchange\<close> function is there and is not called, and the result is false although
  the \<^verbatim>\<open>onchange\<close> function prevents nothing.
\<close>

theorem dispatch_skips_onchange:
  "onchange (statuses watched_world ! 0) = Some quiet_onchange \<and>
   \<not> h_preventDefault quiet_onchange \<and>
   \<not> fst (PermissionStatus_dispatchEvent 0 cancelable_change watched_world) \<and>
   Called (h_id quiet_onchange) 0 Granted \<notin>
     set (trace (snd (snd (PermissionStatus_dispatchEvent 0 cancelable_change watched_world))))"
  by (simp add: dispatch_eq watched_world_eq prevented_after_listeners_def listener_calls_def
        cancelable_change_def PermissionStatus_state_def quiet_onchange_def
        preventing_listener_def)


section \<open>Resolving a key that is in the cache\<close>

text \<open>
  Claim C3 (monotone notification). For a key that is in the cache: resolving it with the
  stored state returns the existing status object and changes nothing (no event); resolving
  it with another state writes the state into the record in place, then dispatches one
  \<^verbatim>\<open>change\<close> event, not cancelable, on the existing status object, and returns that
  object. The trace gains that one dispatch, which already shows the new state, followed
  only by calls of handlers, each of which reads the new state.
\<close>

theorem monotone_notification:
  assumes "coherent w" "cache_key desc = Inr key" "statusCache w key = Some r"
  shows "(scv_state (records w ! r) = state \<longrightarrow>
            cache desc state w = (Inr (scv_status (records w ! r)), w)) \<and>
         (scv_state (records w ! r) \<noteq> state \<longrightarrow>
            (\<exists>w'. cache desc state w = (Inr (scv_status (records w ! r)), w') \<and>
                  records w' = (records w)[r := (records w ! r)\<lparr>scv_state := state\<rparr>] \<and>
                  PermissionStatus_state (scv_status (records w ! r)) w' = state \<and>
                  statusCache w' = statusCache w \<and> statuses w' = statuses w \<and>
                  engine w' = engine w \<and>
                  (\<exists>calls. trace w' =
                             trace w @
                             Dispatched (scv_status (records w ! r)) change_event state # calls \<and>
                           (\<forall>c \<in> set calls.
                              \<exists>h. c = Called h (scv_status (records w ! r)) state))))"
proof (intro conjI impI)
  assume "scv_state (records w ! r) = state"
  with assms show "cache desc state w = (Inr (scv_status (records w ! r)), w)"
    by (simp add: cache_hit_same)
next
  assume changed: "scv_state (records w ! r) \<noteq> state"
  let ?s = "scv_status (records w ! r)"
  let ?w1 = "w\<lparr>records := (records w)[r := (records w ! r)\<lparr>scv_state := state\<rparr>]\<rparr>"
  from assms have r: "r < length (records w)" and ptr: "ps_state (statuses w ! ?s) = r"
    by (auto simp add: coherent_def)
  then have st: "PermissionStatus_state ?s ?w1 = state"
    by (simp add: PermissionStatus_state_def)
  obtain b ev' w' where d: "PermissionStatus_dispatchEvent ?s change_event ?w1 = (b, ev', w')"
    by (cases "PermissionStatus_dispatchEvent ?s change_event ?w1") auto
  from assms changed d have c: "cache desc state w = (Inr ?s, w')"
    by (simp add: cache_def Let_def)
  from dispatch_frame[OF d] have fr: "statusCache w' = statusCache w"
    "records w' = (records w)[r := (records w ! r)\<lparr>scv_state := state\<rparr>]"
    "statuses w' = statuses w" "engine w' = engine w"
    by simp_all
  from fr r ptr have st': "PermissionStatus_state ?s w' = state"
    by (simp add: PermissionStatus_state_def)
  let ?calls = "listener_calls ?s (statuses w ! ?s) change_event state @
                (case onchange (statuses w ! ?s) of
                   None \<Rightarrow> [] | Some h \<Rightarrow> [Called (h_id h) ?s state])"
  have np: "\<not> prevented_after_listeners ps change_event" for ps
    by (simp add: prevented_after_listeners_def change_event_def)
  from d st have tr: "trace w' = trace w @ Dispatched ?s change_event state # ?calls"
    by (auto simp add: dispatch_eq Let_def np split: option.splits)
  have "\<forall>c \<in> set ?calls. \<exists>h. c = Called h ?s state"
    by (auto simp add: listener_calls_def split: option.splits)
  with c fr st' tr
  show "\<exists>w'. cache desc state w = (Inr ?s, w') \<and>
             records w' = (records w)[r := (records w ! r)\<lparr>scv_state := state\<rparr>] \<and>
             PermissionStatus_state ?s w' = state \<and>
             statusCache w' = statusCache w \<and> statuses w' = statuses w \<and>
             engine w' = engine w \<and>
             (\<exists>calls. trace w' = trace w @ Dispatched ?s change_event state # calls \<and>
                      (\<forall>c \<in> set calls. \<exists>h. c = Called h ?s state))"
    by blast
qed

text \<open>The example world holds \<^verbatim>\<open>hrtime$\<close> as granted: resolving it as granted changes
  nothing, resolving it as denied calls both handlers with the state already denied.\<close>

theorem monotone_notification_witness:
  "cache (JObj [(''name'', JStr ''hrtime'')]) Granted watched_world = (Inr 0, watched_world) \<and>
   fst (cache (JObj [(''name'', JStr ''hrtime'')]) Denied watched_world) = Inr 0 \<and>
   PermissionStatus_state 0 (snd (cache (JObj [(''name'', JStr ''hrtime'')]) Denied watched_world)) =
     Denied \<and>
   trace (snd (cache (JObj [(''name'', JStr ''hrtime'')]) Denied watched_world)) =
     trace watched_world @
     [Dispatched 0 change_event Denied, Called 1 0 Denied, Called 2 0 Denied]"
proof -
  let ?d = "JObj [(''name'', JStr ''hrtime'')]"
  have k: "cache_key ?d = Inr ''hrtime$''"
    by (simp add: cache_key_def bare_def)
  have c: "statusCache watched_world ''hrtime$'' = Some 0"
    by (simp add: watched_world_eq)
  have s: "scv_state (records watched_world ! 0) = Granted"
          "scv_status (records watched_world ! 0) = 0"
    by (simp_all add: watched_world_eq)
  from monotone_notification[OF coherent_watched_world k c, of Granted]
       monotone_notification[OF coherent_watched_world k c, of Denied] s
  have "cache ?d Granted watched_world = (Inr 0, watched_world)"
    and "fst (cache ?d Denied watched_world) = Inr 0"
    and "PermissionStatus_state 0 (snd (cache ?d Denied watched_world)) = Denied"
    by auto
  moreover have "trace (snd (cache ?d Denied watched_world)) =
     trace watched_world @
     [Dispatched 0 change_event Denied, Called 1 0 Denied, Called 2 0 Denied]"
    by (simp add: cache_def k c s Let_def dispatch_eq watched_world_eq
          PermissionStatus_state_def prevented_after_listeners_def listener_calls_def
          change_event_def quiet_onchange_def preventing_listener_def)
  ultimately show ?thesis by simp
qed

section \<open>Keys and identifying sub-fields\<close>

lemma absent_undefined: "\<not> ReflectHas d p \<Longrightarrow> GetProp d p = JUndefined"
  by (cases d) auto

lemma map_of_put: "map_of (put p v ps) q = (if q = p then Some v else map_of ps q)"
  by (induction ps) auto

lemma GetProp_SetProp:
  "GetProp (SetProp (JObj ps) p v) q = (if q = p then v else GetProp (JObj ps) q)"
  by (simp add: map_of_put)

lemma ReflectHas_SetProp:
  "ReflectHas (SetProp (JObj ps) p v) q = (q = p \<or> ReflectHas (JObj ps) q)"
  by (simp add: map_of_put)

lemma permission_name:
  "v \<in> set permissionNames \<Longrightarrow>
   \<exists>nm. v = JStr nm \<and>
     nm \<in> set [''read'', ''write'', ''net'', ''env'', ''sys'', ''run'', ''ffi'', ''hrtime'']"
  unfolding permissionNames_def by simp (elim disjE, simp_all)

lemma valid_is_object:
  "isValidDescriptor d \<Longrightarrow> \<exists>ps nm. d = JObj ps \<and> GetProp d ''name'' = JStr nm \<and>
     nm \<in> set [''read'', ''write'', ''net'', ''env'', ''sys'', ''run'', ''ffi'', ''hrtime'']"
proof (cases d)
  case (JObj ps)
  assume "isValidDescriptor d"
  then have "GetProp d ''name'' \<in> set permissionNames"
    by (simp add: isValidDescriptor_def ArrayPrototypeIncludes_def)
  from permission_name[OF this] JObj show ?thesis by blast
qed (simp_all add: isValidDescriptor_def ArrayPrototypeIncludes_def permissionNames_def)

lemma formDescriptor_name:
  assumes "isValidDescriptor d" "formDescriptor pfu d = Inr n"
  shows "isValidDescriptor n \<and> GetProp n ''name'' = GetProp d ''name''"
proof -
  from valid_is_object[OF assms(1)] obtain ps where d: "d = JObj ps" by blast
  have "GetProp n ''name'' = GetProp d ''name'' \<and> typeof n = ''object'' \<and> n \<noteq> JNull"
    using assms(2) unfolding d formDescriptor_def
    by (auto simp add: map_of_put split: if_splits sum.splits)
  with assms(1) show ?thesis by (simp add: isValidDescriptor_def)
qed




section \<open>Identity\<close>





section \<open>Key partition\<close>













section \<open>Presence of the sub-field\<close>

lemma same_key_same_instance:
  assumes "coherent w" "cache_key x = cache_key y"
    "cache x s1 w = (Inr a, w1)" "cache y s2 w1 = (Inr b, w2)"
  shows "a = b"
proof -
  from cache_step[OF assms(1,3)] obtain k r where
    c: "coherent w1" and k: "cache_key x = Inr k" "statusCache w1 k = Some r"
    "scv_status (records w1 ! r) = a"
    by auto
  from k(1) assms(2) have ky: "cache_key y = Inr k" by simp
  show ?thesis
  proof (cases "scv_state (records w1 ! r) = s2")
    case True
    from cache_hit_same[OF ky k(2) True] assms(4) k(3) show ?thesis by simp
  next
    case False
    from cache_hit_changed[OF ky k(2) False] assms(4) k(3) show ?thesis by auto
  qed
qed

text \<open>
  Claim C6 (presence asymmetry). In \<^verbatim>\<open>cache\<close>, a read, write or ffi descriptor that has a
  \<^verbatim>\<open>path\<close> property gets the suffixed key whatever the value: \<^verbatim>\<open>{kind}-&\<close> for the empty
  string, \<^verbatim>\<open>{kind}-undefined&\<close> for \<^verbatim>\<open>undefined\<close>. A net, run, env or sys descriptor whose
  sub-field is the empty string gets the bare key \<^verbatim>\<open>{kind}$\<close>, the key of a descriptor of
  that kind without the property, and the two resolve to the same \<^verbatim>\<open>PermissionStatus\<close>
  instance, whichever comes first.
\<close>

theorem presence_asymmetry:
  assumes "coherent w"
  shows "(\<forall>kind \<in> {''read'', ''write'', ''ffi''}.
            GetProp d ''name'' = JStr kind \<and> ReflectHas d ''path'' \<longrightarrow>
              (GetProp d ''path'' = JStr [] \<longrightarrow> cache_key d = Inr (kind @ ''-&'')) \<and>
              (GetProp d ''path'' = JUndefined \<longrightarrow>
                 cache_key d = Inr (kind @ ''-undefined&''))) \<and>
         (\<forall>(kind, field) \<in> {(''net'', ''host''), (''run'', ''command''),
                              (''env'', ''variable''), (''sys'', ''kind'')}.
            GetProp d ''name'' = JStr kind \<and> GetProp d field = JStr [] \<and>
            GetProp d' ''name'' = JStr kind \<and> \<not> ReflectHas d' field \<longrightarrow>
              cache_key d = Inr (kind @ ''$'') \<and> cache_key d' = Inr (kind @ ''$'') \<and>
              (\<forall>s1 s2 a b w1 w2.
                 cache d s1 w = (Inr a, w1) \<and> cache d' s2 w1 = (Inr b, w2) \<longrightarrow> a = b) \<and>
              (\<forall>s1 s2 a b w1 w2.
                 cache d' s1 w = (Inr a, w1) \<and> cache d s2 w1 = (Inr b, w2) \<longrightarrow> a = b))"
proof (rule conjI)
  show "\<forall>kind \<in> {''read'', ''write'', ''ffi''}.
            GetProp d ''name'' = JStr kind \<and> ReflectHas d ''path'' \<longrightarrow>
              (GetProp d ''path'' = JStr [] \<longrightarrow> cache_key d = Inr (kind @ ''-&'')) \<and>
              (GetProp d ''path'' = JUndefined \<longrightarrow>
                 cache_key d = Inr (kind @ ''-undefined&''))"
    by (auto simp add: cache_key_def with_field_def)
next
  show "\<forall>(kind, field) \<in> {(''net'', ''host''), (''run'', ''command''),
                              (''env'', ''variable''), (''sys'', ''kind'')}.
            GetProp d ''name'' = JStr kind \<and> GetProp d field = JStr [] \<and>
            GetProp d' ''name'' = JStr kind \<and> \<not> ReflectHas d' field \<longrightarrow>
              cache_key d = Inr (kind @ ''$'') \<and> cache_key d' = Inr (kind @ ''$'') \<and>
              (\<forall>s1 s2 a b w1 w2.
                 cache d s1 w = (Inr a, w1) \<and> cache d' s2 w1 = (Inr b, w2) \<longrightarrow> a = b) \<and>
              (\<forall>s1 s2 a b w1 w2.
                 cache d' s1 w = (Inr a, w1) \<and> cache d s2 w1 = (Inr b, w2) \<longrightarrow> a = b)"
  proof (rule ballI)
    fix kf :: "string \<times> string"
    assume kf: "kf \<in> {(''net'', ''host''), (''run'', ''command''),
                       (''env'', ''variable''), (''sys'', ''kind'')}"
    obtain kind field where Pair: "kf = (kind, field)" by (cases kf)
    have keys: "cache_key d = Inr (kind @ ''$'') \<and> cache_key d' = Inr (kind @ ''$'')"
      if h: "GetProp d ''name'' = JStr kind" "GetProp d field = JStr []"
        "GetProp d' ''name'' = JStr kind" "\<not> ReflectHas d' field"
    proof -
      from absent_undefined[OF h(4)] have "GetProp d' field = JUndefined" .
      with kf Pair h show ?thesis
        by (auto simp add: cache_key_def bare_def)
    qed
    have share: "a = b"
      if "cache_key d = cache_key d'" "cache d s1 w = (Inr a, w1)" "cache d' s2 w1 = (Inr b, w2)"
      for s1 s2 a b w1 w2
      using same_key_same_instance[OF assms that] .
    have share': "a = b"
      if "cache_key d' = cache_key d" "cache d' s1 w = (Inr a, w1)" "cache d s2 w1 = (Inr b, w2)"
      for s1 s2 a b w1 w2
      using same_key_same_instance[OF assms that] .
    show "case kf of (kind, field) \<Rightarrow>
          GetProp d ''name'' = JStr kind \<and> GetProp d field = JStr [] \<and>
          GetProp d' ''name'' = JStr kind \<and> \<not> ReflectHas d' field \<longrightarrow>
            cache_key d = Inr (kind @ ''$'') \<and> cache_key d' = Inr (kind @ ''$'') \<and>
            (\<forall>s1 s2 a b w1 w2.
               cache d s1 w = (Inr a, w1) \<and> cache d' s2 w1 = (Inr b, w2) \<longrightarrow> a = b) \<and>
            (\<forall>s1 s2 a b w1 w2.
               cache d' s1 w = (Inr a, w1) \<and> cache d s2 w1 = (Inr b, w2) \<longrightarrow> a = b)"
      unfolding Pair prod.case
    proof (intro impI)
      assume "GetProp d ''name'' = JStr kind \<and> GetProp d field = JStr [] \<and>
              GetProp d' ''name'' = JStr kind \<and> \<not> ReflectHas d' field"
      with keys have k: "cache_key d = Inr (kind @ ''$'')" "cache_key d' = Inr (kind @ ''$'')"
        by simp_all
      then have e: "cache_key d = cache_key d'" "cache_key d' = cache_key d" by simp_all
      from k share[OF e(1)] share'[OF e(2)]
      show "cache_key d = Inr (kind @ ''$'') \<and> cache_key d' = Inr (kind @ ''$'') \<and>
            (\<forall>s1 s2 a b w1 w2.
               cache d s1 w = (Inr a, w1) \<and> cache d' s2 w1 = (Inr b, w2) \<longrightarrow> a = b) \<and>
            (\<forall>s1 s2 a b w1 w2.
               cache d' s1 w = (Inr a, w1) \<and> cache d s2 w1 = (Inr b, w2) \<longrightarrow> a = b)"
        by blast
    qed
  qed
qed


text \<open>An empty path, an undefined path, and an empty host next to no host.\<close>

theorem presence_asymmetry_witness:
  "cache_key (JObj [(''name'', JStr ''read''), (''path'', JStr [])]) = Inr ''read-&'' \<and>
   cache_key (JObj [(''name'', JStr ''read''), (''path'', JUndefined)]) = Inr ''read-undefined&'' \<and>
   cache_key (JObj [(''name'', JStr ''net''), (''host'', JStr [])]) = Inr ''net$'' \<and>
   cache_key (JObj [(''name'', JStr ''net'')]) = Inr ''net$'' \<and>
   fst (cache (JObj [(''name'', JStr ''net''), (''host'', JStr [])]) Granted (init ())) = Inr 0 \<and>
   fst (cache (JObj [(''name'', JStr ''net'')]) Denied
          (snd (cache (JObj [(''name'', JStr ''net''), (''host'', JStr [])]) Granted (init ())))) =
     Inr 0"
proof -
  let ?p1 = "JObj [(''name'', JStr ''read''), (''path'', JStr [])]"
  let ?p2 = "JObj [(''name'', JStr ''read''), (''path'', JUndefined)]"
  let ?h = "JObj [(''name'', JStr ''net''), (''host'', JStr [])]"
  let ?n = "JObj [(''name'', JStr ''net'')]"
  define w1 where "w1 = snd (cache ?h Granted (init ()))"
  define w2 where "w2 = snd (cache ?n Denied w1)"
  have k1: "cache_key ?p1 = Inr ''read-&''"
    using presence_asymmetry[OF coherent_init[of "()"], of ?p1] by simp
  have k2: "cache_key ?p2 = Inr ''read-undefined&''"
    using presence_asymmetry[OF coherent_init[of "()"], of ?p2] by simp
  note T = presence_asymmetry[OF coherent_init[of "()"], of ?h ?n]
  from T have k3: "cache_key ?h = Inr ''net$''" and k4: "cache_key ?n = Inr ''net$''"
    by simp_all
  have c1: "cache ?h Granted (init ()) = (Inr 0, w1)"
    unfolding w1_def by (simp add: cache_def k3 init_def new_with_token)
  have "\<exists>b. fst (cache ?n Denied w1) = Inr b"
    unfolding w1_def by (simp add: cache_def k3 k4 init_def new_with_token Let_def split: prod.splits)
  then obtain b where c2: "cache ?n Denied w1 = (Inr b, w2)"
    unfolding w2_def by (metis prod.collapse)
  from T c1 c2 have "0 = b" by simp blast
  with c2 have f2: "fst (cache ?n Denied w1) = Inr 0" by simp
  from c1 have f1: "fst (cache ?h Granted (init ())) = Inr 0" by simp
  from k1 k2 k3 k4 f1 f2 show ?thesis
    unfolding w1_def by blast
qed

section \<open>The key of a path that was never given\<close>

text \<open>
  Claim C5 (absent-field key) fails on the code for read, write and ffi.
  \<^verbatim>\<open>formDescriptor\<close> assigns \<^verbatim>\<open>desc.path\<close> whether or not the descriptor had one, so when
  \<^verbatim>\<open>cache\<close> runs the property is there and the key is the suffixed one, never the bare
  \<^verbatim>\<open>{kind}$\<close>: the test \<^verbatim>\<open>ReflectHas(desc, "path")\<close> cannot fail after normalisation,
  whatever \<^verbatim>\<open>pathFromURL\<close> returns.
\<close>

theorem normalised_path_is_present:
  assumes "isValidDescriptor d" "GetProp d ''name'' = JStr kind"
    "kind \<in> {''read'', ''write'', ''ffi''}" "formDescriptor pfu d = Inr n"
  shows "ReflectHas n ''path'' \<and> cache_key n = with_field (JStr kind) (GetProp n ''path'') \<and>
         cache_key n \<noteq> Inr (kind @ ''$'')"
proof -
  from valid_is_object[OF assms(1)] obtain ps where d: "d = JObj ps" by blast
  from assms(2,3,4) obtain p where n: "n = SetProp d ''path'' p"
    by (auto simp add: formDescriptor_def split: sum.splits)
  from n d have has: "ReflectHas n ''path''" by (simp add: map_of_put)
  from formDescriptor_name[OF assms(1,4)] assms(2) have nm: "GetProp n ''name'' = JStr kind"
    by simp
  from has nm assms(3) have k: "cache_key n = with_field (JStr kind) (GetProp n ''path'')"
    by (auto simp add: cache_key_def)
  have "with_field (JStr kind) v \<noteq> Inr (kind @ ''$'')" for v
    by (auto simp add: with_field_def split: sum.splits)
  with has k show ?thesis by simp
qed

text \<open>\<^verbatim>\<open>querySync({ name: "read" })\<close> stores its status under \<^verbatim>\<open>read-undefined&\<close>; the
  same descriptor given to \<^verbatim>\<open>cache\<close> as it is would get \<^verbatim>\<open>read$\<close>.\<close>

theorem normalised_path_is_present_witness:
  "formDescriptor pathFromURL_posix (JObj [(''name'', JStr ''read'')]) =
     Inr (JObj [(''name'', JStr ''read''), (''path'', JUndefined)]) \<and>
   cache_key (JObj [(''name'', JStr ''read''), (''path'', JUndefined)]) = Inr ''read-undefined&'' \<and>
   cache_key (JObj [(''name'', JStr ''read'')]) = Inr ''read$'' \<and>
   fst (querySync scripted_ops pathFromURL_posix (JObj [(''name'', JStr ''read'')])
          (init [Granted])) = Inr 0 \<and>
   statusCache (snd (querySync scripted_ops pathFromURL_posix (JObj [(''name'', JStr ''read'')])
          (init [Granted]))) ''read$'' = None \<and>
   statusCache (snd (querySync scripted_ops pathFromURL_posix (JObj [(''name'', JStr ''read'')])
          (init [Granted]))) ''read-undefined&'' = Some 0"
proof -
  let ?d = "JObj [(''name'', JStr ''read'')]"
  let ?n = "JObj [(''name'', JStr ''read''), (''path'', JUndefined)]"
  have v: "isValidDescriptor ?d"
    by (simp add: isValidDescriptor_def ArrayPrototypeIncludes_def permissionNames_def)
  have f: "formDescriptor pathFromURL_posix ?d = Inr ?n"
    by (simp add: formDescriptor_def pathFromURL_posix_def)
  from normalised_path_is_present[OF v _ _ f, of "''read''"]
  have "cache_key ?n = with_field (JStr ''read'') (GetProp ?n ''path'')" by simp
  then have k: "cache_key ?n = Inr ''read-undefined&''" by (simp add: with_field_def)
  have "cache_key ?d = Inr ''read$''" by (simp add: cache_key_def bare_def)
  moreover have "fst (querySync scripted_ops pathFromURL_posix ?d (init [Granted])) = Inr 0"
    "statusCache (snd (querySync scripted_ops pathFromURL_posix ?d (init [Granted]))) ''read$'' = None"
    "statusCache (snd (querySync scripted_ops pathFromURL_posix ?d (init [Granted])))
       ''read-undefined&'' = Some 0"
    by (simp_all add: facade_defs)
  ultimately show ?thesis using f k by simp
qed

section \<open>What serializePermissions returns\<close>

lemma ArrayPrototypeMap_Inr:
  "ArrayPrototypeMap f xs = Inr ys \<Longrightarrow> list_all2 (\<lambda>x y. f x = Inr y) xs ys"
  by (induction xs arbitrary: ys) (auto split: sum.splits)

lemma ArrayPrototypeMap_Inl:
  "ArrayPrototypeMap f xs = Inl e \<Longrightarrow> \<exists>x \<in> set xs. f x = Inl e"
  by (induction xs) (auto split: sum.splits)

lemma fst_set_put: "fst ` set (put k v ps) = insert k (fst ` set ps)"
  unfolding dom_map_of_conv_image_fst[symmetric]
  by (auto simp add: map_of_put dom_def split: if_splits)

lemma serialize_paths_step:
  assumes "serialize_paths pfu p (key # keys) acc = Inr acc'"
  shows "\<exists>v. converted pfu (GetProp p key) v \<and>
             serialize_paths pfu p keys (put key v acc) = Inr acc'"
  using assms
  by (cases "GetProp p key")
     (auto simp add: converted_def split: sum.splits dest: ArrayPrototypeMap_Inr)

lemma serialize_paths_fail:
  assumes "serialize_paths pfu p (key # keys) acc = Inl e"
  shows "(\<exists>xs x. GetProp p key = JArr xs \<and> x \<in> set xs \<and> pfu x = Inl e) \<or>
         (\<exists>v. serialize_paths pfu p keys (put key v acc) = Inl e)"
  using assms
  by (cases "GetProp p key") (auto split: sum.splits dest: ArrayPrototypeMap_Inl)

lemma serialize_paths_Inr:
  "serialize_paths pfu p keys acc = Inr acc' \<Longrightarrow>
   (\<forall>k \<in> set keys. \<exists>v. map_of acc' k = Some v \<and> converted pfu (GetProp p k) v) \<and>
   (\<forall>k. k \<notin> set keys \<longrightarrow> map_of acc' k = map_of acc k) \<and>
   fst ` set acc' = fst ` set acc \<union> set keys"
proof (induction keys arbitrary: acc)
  case Nil
  then show ?case by simp
next
  case (Cons key keys)
  from serialize_paths_step[OF Cons.prems] obtain v where
    v: "converted pfu (GetProp p key) v"
    and r: "serialize_paths pfu p keys (put key v acc) = Inr acc'"
    by blast
  from Cons.IH[OF r] have
    ih1: "\<forall>k \<in> set keys. \<exists>v. map_of acc' k = Some v \<and> converted pfu (GetProp p k) v"
    and ih2: "\<forall>k. k \<notin> set keys \<longrightarrow> map_of acc' k = map_of (put key v acc) k"
    and ih3: "fst ` set acc' = fst ` set (put key v acc) \<union> set keys"
    by simp_all
  have "\<exists>u. map_of acc' key = Some u \<and> converted pfu (GetProp p key) u"
  proof (cases "key \<in> set keys")
    case True
    with ih1 show ?thesis by blast
  next
    case False
    with ih2 v show ?thesis by (simp add: map_of_put)
  qed
  with ih1 ih2 ih3 show ?case by (auto simp add: map_of_put fst_set_put)
qed

lemma serialize_paths_Inl:
  "serialize_paths pfu p keys acc = Inl e \<Longrightarrow>
   \<exists>key \<in> set keys. \<exists>xs x. GetProp p key = JArr xs \<and> x \<in> set xs \<and> pfu x = Inl e"
proof (induction keys arbitrary: acc)
  case Nil
  then show ?case by simp
next
  case (Cons key keys)
  from serialize_paths_fail[OF Cons.prems] Cons.IH show ?case by auto
qed

lemma serialize_lists_step:
  "serialize_lists p (key # keys) acc = serialize_lists p keys (put key (GetProp p key) acc)"
  by (cases "GetProp p key") (simp_all add: ArrayPrototypeSlice_def)

lemma serialize_lists_lookup:
  "map_of (serialize_lists p keys acc) k =
     (if k \<in> set keys then Some (GetProp p k) else map_of acc k)"
proof (induction keys arbitrary: acc)
  case Nil
  show ?case by simp
next
  case (Cons key keys)
  show ?case unfolding serialize_lists_step Cons.IH by (simp add: map_of_put)
qed

lemma serialize_lists_keys:
  "fst ` set (serialize_lists p keys acc) = fst ` set acc \<union> set keys"
proof (induction keys arbitrary: acc)
  case Nil
  show ?case by simp
next
  case (Cons key keys)
  show ?case unfolding serialize_lists_step Cons.IH by (simp add: fst_set_put)
qed


text \<open>
  Claim C8 (serializePermissions). For an input that is an object and not \<^verbatim>\<open>null\<close>, a
  result has exactly the eight keys; under each of read, write, run and ffi an array
  has become the array of its elements converted by \<^verbatim>\<open>pathFromURL\<close> and any other value
  is carried over; under each of env, hrtime, net and sys the value is the input's (an
  array is copied element for element). The call throws only what \<^verbatim>\<open>pathFromURL\<close> throws
  on an element of one of the first four arrays. Any other input is returned as it is.
  Arrays are values here, so that the result's arrays are new ones is not visible.
\<close>

theorem serializePermissions_result:
  "(typeof permissions = ''object'' \<and> permissions \<noteq> JNull \<longrightarrow>
      (\<forall>res. serializePermissions pfu permissions = Inr res \<longrightarrow>
         (\<forall>key \<in> {''read'', ''write'', ''run'', ''ffi''}.
            converted pfu (GetProp permissions key) (GetProp res key)) \<and>
         (\<forall>key \<in> {''env'', ''hrtime'', ''net'', ''sys''}.
            GetProp res key = GetProp permissions key) \<and>
         (\<exists>ps. res = JObj ps \<and>
            fst ` set ps =
              {''read'', ''write'', ''run'', ''ffi'', ''env'', ''hrtime'', ''net'', ''sys''})) \<and>
      (\<forall>e. serializePermissions pfu permissions = Inl e \<longrightarrow>
         (\<exists>key \<in> {''read'', ''write'', ''run'', ''ffi''}.
            \<exists>xs x. GetProp permissions key = JArr xs \<and> x \<in> set xs \<and> pfu x = Inl e))) \<and>
   (\<not> (typeof permissions = ''object'' \<and> permissions \<noteq> JNull) \<longrightarrow>
      serializePermissions pfu permissions = Inr permissions)"
proof (intro conjI impI allI)
  fix res
  assume obj: "typeof permissions = ''object'' \<and> permissions \<noteq> JNull"
    and res: "serializePermissions pfu permissions = Inr res"
  from obj have nu: "permissions \<noteq> JUndefined" by auto
  from obj nu res obtain acc where
    acc: "serialize_paths pfu permissions [''read'', ''write'', ''run'', ''ffi''] [] = Inr acc"
    and r: "res = JObj (serialize_lists permissions [''env'', ''hrtime'', ''net'', ''sys''] acc)"
    by (auto simp add: serializePermissions_def simp del: serialize_lists.simps
          serialize_paths.simps split: sum.splits)
  note P = serialize_paths_Inr[OF acc]
  show "\<forall>key \<in> {''read'', ''write'', ''run'', ''ffi''}.
          converted pfu (GetProp permissions key) (GetProp res key)"
  proof
    fix key :: string
    assume k: "key \<in> {''read'', ''write'', ''run'', ''ffi''}"
    with P obtain v where "map_of acc key = Some v" "converted pfu (GetProp permissions key) v"
      by auto
    moreover from k have "key \<notin> set [''env'', ''hrtime'', ''net'', ''sys'']" by auto
    ultimately show "converted pfu (GetProp permissions key) (GetProp res key)"
      unfolding r by (simp add: serialize_lists_lookup del: serialize_lists.simps)
  qed
  show "\<forall>key \<in> {''env'', ''hrtime'', ''net'', ''sys''}. GetProp res key = GetProp permissions key"
    unfolding r by (simp add: serialize_lists_lookup del: serialize_lists.simps)
  from P have "fst ` set acc = {''read'', ''write'', ''run'', ''ffi''}" by simp
  then have "fst ` set (serialize_lists permissions [''env'', ''hrtime'', ''net'', ''sys''] acc) =
      {''read'', ''write'', ''run'', ''ffi'', ''env'', ''hrtime'', ''net'', ''sys''}"
    unfolding serialize_lists_keys by auto
  with r show "\<exists>ps. res = JObj ps \<and>
      fst ` set ps = {''read'', ''write'', ''run'', ''ffi'', ''env'', ''hrtime'', ''net'', ''sys''}"
    by blast
next
  fix e
  assume obj: "typeof permissions = ''object'' \<and> permissions \<noteq> JNull"
    and res: "serializePermissions pfu permissions = Inl e"
  from obj have nu: "permissions \<noteq> JUndefined" by auto
  from obj nu res
  have "serialize_paths pfu permissions [''read'', ''write'', ''run'', ''ffi''] [] = Inl e"
    by (auto simp add: serializePermissions_def simp del: serialize_lists.simps
          serialize_paths.simps split: sum.splits)
  from serialize_paths_Inl[OF this]
  show "\<exists>key \<in> {''read'', ''write'', ''run'', ''ffi''}.
          \<exists>xs x. GetProp permissions key = JArr xs \<and> x \<in> set xs \<and> pfu x = Inl e"
    by simp
next
  assume "\<not> (typeof permissions = ''object'' \<and> permissions \<noteq> JNull)"
  then show "serializePermissions pfu permissions = Inr permissions"
    by (auto simp add: serializePermissions_def)
qed

text \<open>An allow-list with a file URL, one with a URL that is not a file URL, \<^verbatim>\<open>null\<close>
  and a string.\<close>

theorem serializePermissions_result_witness:
  "serializePermissions pathFromURL_posix
     (JObj [(''read'', JArr [JUrl ''file:///tmp/a'', JStr ''/b'']),
            (''net'', JArr [JStr ''example.com'']),
            (''env'', JBool True), (''write'', JBool False), (''other'', JNull)]) =
   Inr (JObj [(''read'', JArr [JStr ''/tmp/a'', JStr ''/b'']), (''write'', JBool False),
              (''run'', JUndefined), (''ffi'', JUndefined), (''env'', JBool True),
              (''hrtime'', JUndefined), (''net'', JArr [JStr ''example.com'']),
              (''sys'', JUndefined)]) \<and>
   serializePermissions pathFromURL_posix
     (JObj [(''run'', JArr [JStr ''/bin/sh'', JUrl ''https://example.com/'']), (''sys'', JNull)]) =
   Inl (TypeError ''Must be a file URL.'') \<and>
   serializePermissions pathFromURL_posix JNull = Inr JNull \<and>
   serializePermissions pathFromURL_posix (JStr ''inherit'') = Inr (JStr ''inherit'')"
  using serializePermissions_result[of JNull pathFromURL_posix]
    serializePermissions_result[of "JStr ''inherit''" pathFromURL_posix]
  by (simp add: serializePermissions_def pathFromURL_posix_def ArrayPrototypeSlice_def)

section \<open>Registering handlers keeps coherence\<close>

lemma coherent_handlers:
  assumes "coherent w"
  shows "coherent (addEventListener this ty h w) \<and> coherent (set_onchange this f w)"
proof -
  have "ps_state ((ss[this := (ss ! this)\<lparr>listeners := ls\<rparr>]) ! i) = ps_state (ss ! i)"
    "ps_state ((ss[this := (ss ! this)\<lparr>onchange := f\<rparr>]) ! i) = ps_state (ss ! i)"
    for ss :: "PermissionStatus list" and ls i
    by (cases "i = this"; cases "this < length ss"; simp add: list_update_beyond)+
  with assms show ?thesis
    by (simp add: coherent_def addEventListener_def set_onchange_def)
qed


end
